theory Spec2Isabelle
  imports Main
begin

section \<open>portcheck: the port-set expander and the bounded prober\<close>

text \<open>
  This theory embeds \<^verbatim>\<open>portcheck/main.go\<close>: the functions \<^verbatim>\<open>getPorts\<close>,
  \<^verbatim>\<open>getAddresses\<close> and \<^verbatim>\<open>main\<close>, together with the functions of the Go standard
  library they call (\<^verbatim>\<open>strings.Split\<close>, \<^verbatim>\<open>strconv.Atoi\<close>, \<^verbatim>\<open>strconv.FormatInt\<close>,
  \<^verbatim>\<open>net.JoinHostPort\<close>). Go strings are byte sequences, here \<^typ>\<open>string\<close>.
  The type \<^verbatim>\<open>int\<close> is taken to be 64 bits wide.
\<close>

subsection \<open>Constants\<close>

definition portRangeEnd :: int where
  "portRangeEnd = 65535"

definition usage :: string where
  "usage = ''Not enough arguments. Usage: portcheck HOST [port|port-range|port1,port2,...]''"

subsection \<open>Standard library: strings.Split with a one-byte separator\<close>

text \<open>
  \<^verbatim>\<open>strings.Split(s, sep)\<close> cuts \<^verbatim>\<open>s\<close> at every occurrence of \<^verbatim>\<open>sep\<close>; a string
  without the separator, the empty string included, gives the one-element slice
  holding the string itself. \<^verbatim>\<open>strings.SplitSeq\<close> iterates over the same pieces.
\<close>

fun Split :: "string \<Rightarrow> char \<Rightarrow> string list" where
  "Split [] sep = [[]]"
| "Split (c # s) sep =
     (if c = sep then [] # Split s sep
      else (case Split s sep of
              [] \<Rightarrow> [[c]]
            | piece # pieces \<Rightarrow> (c # piece) # pieces))"

subsection \<open>Standard library: strconv.Atoi and strconv.FormatInt\<close>

definition is_digit :: "char \<Rightarrow> bool" where
  "is_digit ch = (48 \<le> (of_char ch :: nat) \<and> (of_char ch :: nat) \<le> 57)"

text \<open>The digit loop of \<^verbatim>\<open>Atoi\<close>: \<^verbatim>\<open>n = n*10 + int(ch - '0')\<close>, a syntax error at a
  byte that is no digit.\<close>

fun digits_value :: "string \<Rightarrow> nat \<Rightarrow> nat option" where
  "digits_value [] n = Some n"
| "digits_value (ch # s) n =
     (if is_digit ch then digits_value s (n * 10 + ((of_char ch :: nat) - 48)) else None)"

text \<open>
  \<^verbatim>\<open>Atoi\<close> accepts an optional sign followed by at least one decimal digit, and
  reports an error (here \<open>None\<close>) for anything else and for a value outside the
  64-bit range. The caller only tests \<^verbatim>\<open>err != nil\<close>.
\<close>

definition Atoi :: "string \<Rightarrow> int option" where
  "Atoi s =
     (case s of
        [] \<Rightarrow> None
      | c # cs \<Rightarrow>
          (let ds = (if c = CHR ''-'' \<or> c = CHR ''+'' then cs else s) in
           if ds = [] then None
           else (case digits_value ds 0 of
                   None \<Rightarrow> None
                 | Some n \<Rightarrow>
                     (let v = (if c = CHR ''-'' then - int n else int n) in
                      if v < - (2 ^ 63) \<or> 2 ^ 63 - 1 < v then None else Some v))))"

text \<open>The formatter reads each digit from the table \<^verbatim>\<open>"0123456789"\<close>.\<close>

definition digit_char :: "nat \<Rightarrow> char" where
  "digit_char d = ''0123456789'' ! d"

fun digits :: "nat \<Rightarrow> string" where
  "digits n = (if n < 10 then [digit_char n] else digits (n div 10) @ [digit_char (n mod 10)])"

declare digits.simps [simp del]

text \<open>\<^verbatim>\<open>FormatInt(i, 10)\<close>: the canonical decimal text of \<^verbatim>\<open>i\<close>.\<close>

definition FormatInt :: "int \<Rightarrow> string" where
  "FormatInt i = (if i < 0 then CHR ''-'' # digits (nat (- i)) else digits (nat i))"

subsection \<open>Standard library: net.JoinHostPort\<close>

text \<open>A host with a colon is taken for a literal IPv6 address and put in brackets.\<close>

definition JoinHostPort :: "string \<Rightarrow> string \<Rightarrow> string" where
  "JoinHostPort host port =
     (if CHR '':'' \<in> set host then ''['' @ host @ '']:'' @ port
      else host @ '':'' @ port)"

subsection \<open>getPorts\<close>

text \<open>A Go slice value is either \<^verbatim>\<open>nil\<close> or holds elements; \<^verbatim>\<open>[]string{}\<close> is
  the empty slice that is not \<^verbatim>\<open>nil\<close>.\<close>

datatype 'a slice = NilSlice | Slice "'a list"

text \<open>Conversion to \<^verbatim>\<open>int64\<close> and the wrap-around of \<^verbatim>\<open>i++\<close> on it.\<close>

definition int64 :: "int \<Rightarrow> int" where
  "int64 x = (x + 2 ^ 63) mod 2 ^ 64 - 2 ^ 63"

text \<open>
  The loop \<^verbatim>\<open>for i := int64(start); i <= int64(end); i++\<close>. With \<^verbatim>\<open>end\<close> the
  largest 64-bit value the condition never fails, so the loop is a partial function:
  \<open>None\<close> stands for a loop that does not return.
\<close>

partial_function (option) ports_loop :: "int \<Rightarrow> int \<Rightarrow> string list \<Rightarrow> string list option" where
  "ports_loop i e toReturn =
     (if i \<le> e then ports_loop (int64 (i + 1)) e (toReturn @ [FormatInt i])
      else Some toReturn)"

declare ports_loop.simps [code]

definition getPorts :: "string \<Rightarrow> string slice option" where
  "getPorts r =
     (let s = Split r (CHR ''-'') in
      case Atoi (s ! 0) of
        None \<Rightarrow> Some NilSlice
      | Some start \<Rightarrow>
          if start > portRangeEnd \<or> start < 1 then Some NilSlice
          else if length s = 1 then Some (Slice [s ! 0])
          else if length s > 2 then Some NilSlice
          else (case Atoi (s ! 1) of
                  None \<Rightarrow> Some NilSlice
                | Some end \<Rightarrow>
                    if start > portRangeEnd \<or> start < 1 then Some NilSlice
                    else map_option Slice (ports_loop (int64 start) (int64 end) [])))"

subsection \<open>getAddresses\<close>

datatype 'a exit = Fatal string | Returns 'a

text \<open>The function literal applied to \<^verbatim>\<open>r\<close>: one address for each port, in order.\<close>

fun join_ports :: "string \<Rightarrow> string list \<Rightarrow> string list \<Rightarrow> string list" where
  "join_ports host [] toReturn = toReturn"
| "join_ports host (j # r) toReturn = join_ports host r (toReturn @ [JoinHostPort host j])"

text \<open>The loop over the comma-separated tokens of the port argument.\<close>

fun tokens_loop :: "string \<Rightarrow> string list \<Rightarrow> string list \<Rightarrow> string list option" where
  "tokens_loop host [] addresses = Some addresses"
| "tokens_loop host (i # tokens) addresses =
     (case getPorts i of
        None \<Rightarrow> None
      | Some NilSlice \<Rightarrow> tokens_loop host tokens addresses
      | Some (Slice r) \<Rightarrow> tokens_loop host tokens (addresses @ join_ports host r []))"

text \<open>The loop \<^verbatim>\<open>for i := range portRangeEnd\<close> visits \<open>0, \<dots>, portRangeEnd - 1\<close> and
  skips \<open>0\<close>.\<close>

fun all_ports_loop :: "string \<Rightarrow> nat list \<Rightarrow> string list \<Rightarrow> string list" where
  "all_ports_loop host [] addresses = addresses"
| "all_ports_loop host (i # is) addresses =
     (if i = 0 then all_ports_loop host is addresses
      else all_ports_loop host is (addresses @ [JoinHostPort host (FormatInt (int64 (int i)))]))"

text \<open>\<^verbatim>\<open>getAddresses\<close> reads \<^verbatim>\<open>os.Args\<close>, here the parameter \<open>args\<close>;
  \<^verbatim>\<open>log.Fatal\<close> prints its message and ends the process.\<close>

definition getAddresses :: "string list \<Rightarrow> string list exit option" where
  "getAddresses args =
     (if length args < 2 then Some (Fatal usage)
      else
        (let host = args ! 1;
             addresses = [];
             addresses = (if length args = 2
                          then all_ports_loop host [0 ..< nat portRangeEnd] addresses
                          else addresses)
         in if length args > 2
            then map_option Returns (tokens_loop host (Split (args ! 2) (CHR '','')) addresses)
            else Some (Returns addresses)))"

subsection \<open>Vocabulary of the specification\<close>

text \<open>A port argument written as tokens separated by commas.\<close>

fun Join :: "string list \<Rightarrow> char \<Rightarrow> string" where
  "Join [] sep = []"
| "Join [t] sep = t"
| "Join (t # u # ts) sep = t @ sep # Join (u # ts) sep"


text \<open>The addresses one token contributes, and the tokens the specification calls
  malformed: the empty string, a single port that does not parse or lies outside
  \<open>[1, 65535]\<close>, a range with a bound that does not parse, and a token with more than
  one separator.\<close>

definition token_addresses :: "string \<Rightarrow> string \<Rightarrow> string list" where
  "token_addresses host t =
     (case getPorts t of Some (Slice r) \<Rightarrow> join_ports host r [] | _ \<Rightarrow> [])"

definition malformed :: "string \<Rightarrow> bool" where
  "malformed t =
     (t = []
      \<or> (count_list t (CHR ''-'') = 0 \<and> (case Atoi t of None \<Rightarrow> True | Some v \<Rightarrow> v < 1 \<or> 65535 < v))
      \<or> (count_list t (CHR ''-'') = 1 \<and> list_ex (\<lambda>bound. Atoi bound = None) (Split t (CHR ''-'')))
      \<or> 2 \<le> count_list t (CHR ''-''))"


subsection \<open>The goroutine started for one address\<close>

text \<open>
  The function literal passed to \<^verbatim>\<open>wg.Go\<close> calls \<^verbatim>\<open>net.DialTimeout\<close> and, on a
  connection, \<^verbatim>\<open>conn.Close\<close>. What the network answers is a parameter: the dial
  fails (refusal and timeout alike leave \<^verbatim>\<open>conn\<close> \<^verbatim>\<open>nil\<close>), or it succeeds and closing
  then returns \<^verbatim>\<open>nil\<close> or an error with its text.
\<close>

datatype dial_result = DialFailed | DialOK "string option"

text \<open>The effects of the goroutine after the dial has returned, in program order:
  a line on standard output, the call of \<^verbatim>\<open>conn.Close\<close>, a line on standard error,
  and the receive \<^verbatim>\<open><-workerChan\<close> that frees the slot.\<close>

datatype event = Stdout string | CloseConn | Stderr string | Release

definition newline :: string where
  "newline = [CHR 0x0A]"

text \<open>
  \<^verbatim>\<open>defer func() { <-workerChan }()\<close> is registered once the dial has returned and
  runs when the function literal returns, after the body.
\<close>

definition worker :: "string \<Rightarrow> dial_result \<Rightarrow> event list" where
  "worker address r =
     (let deferred = [Release];
          body = (case r of
                    DialFailed \<Rightarrow> []
                  | DialOK errE \<Rightarrow>
                      [Stdout (''SUCCESS: '' @ address @ newline), CloseConn]
                      @ (case errE of
                           None \<Rightarrow> []
                         | Some e \<Rightarrow> [Stderr (''error closing connection: '' @ e @ newline)]))
      in body @ deferred)"

subsection \<open>main: the loop over the addresses and the running goroutines\<close>

text \<open>
  \<^verbatim>\<open>main\<close> sends on the buffered channel \<^verbatim>\<open>workerChan\<close> of capacity \<^verbatim>\<open>workers\<close>,
  starts a goroutine with \<^verbatim>\<open>wg.Go\<close>, and after the loop waits in \<^verbatim>\<open>wg.Wait\<close>.
  The goroutines run interleaved with \<^verbatim>\<open>main\<close> and with each other. A goroutine
  is in its dial, or has the effects listed still to perform; with none left it has
  returned.
\<close>

datatype goroutine = Dialing | Running "event list"

datatype main_pc = Sending | Spawning string | Waiting | Exited

record state =
  main_pc :: main_pc
  queue :: "string list"
  chan :: nat
  procs :: "(string \<times> goroutine) list"
  stdout :: "string list"
  stderr :: "string list"

definition init :: "string list \<Rightarrow> state" where
  "init addresses =
     \<lparr>main_pc = Sending, queue = addresses, chan = 0, procs = [], stdout = [], stderr = []\<rparr>"

text \<open>
  One step of the program, chosen by the scheduler and the network: \<^verbatim>\<open>main\<close> sends
  on the channel, starts the goroutine, leaves the loop, or returns from
  \<^verbatim>\<open>wg.Wait\<close>; the dial of goroutine \<open>i\<close> returns with a result; goroutine \<open>i\<close>
  performs its next effect. \<open>None\<close> means that the step cannot be taken in this state:
  a send on a full channel and a receive on an empty one block.
\<close>

datatype action = Send | Go | LoopEnd | Wait | Dial nat dial_result | Exec nat

definition perform :: "state \<Rightarrow> event \<Rightarrow> state option" where
  "perform s e =
     (case e of
        Stdout line \<Rightarrow> Some (s\<lparr>stdout := stdout s @ [line]\<rparr>)
      | CloseConn \<Rightarrow> Some s
      | Stderr line \<Rightarrow> Some (s\<lparr>stderr := stderr s @ [line]\<rparr>)
      | Release \<Rightarrow> if 0 < chan s then Some (s\<lparr>chan := chan s - 1\<rparr>) else None)"

definition step :: "nat \<Rightarrow> state \<Rightarrow> action \<Rightarrow> state option" where
  "step W s act =
     (case act of
        Send \<Rightarrow>
          (case main_pc s of
             Sending \<Rightarrow>
               (case queue s of
                  [] \<Rightarrow> None
                | address # rest \<Rightarrow>
                    if chan s < W
                    then Some (s\<lparr>main_pc := Spawning address, queue := rest, chan := chan s + 1\<rparr>)
                    else None)
           | _ \<Rightarrow> None)
      | Go \<Rightarrow>
          (case main_pc s of
             Spawning address \<Rightarrow>
               Some (s\<lparr>main_pc := Sending, procs := procs s @ [(address, Dialing)]\<rparr>)
           | _ \<Rightarrow> None)
      | LoopEnd \<Rightarrow>
          (if main_pc s = Sending \<and> queue s = [] then Some (s\<lparr>main_pc := Waiting\<rparr>) else None)
      | Wait \<Rightarrow>
          (if main_pc s = Waiting \<and> list_all (\<lambda>p. snd p = Running []) (procs s)
           then Some (s\<lparr>main_pc := Exited\<rparr>) else None)
      | Dial i r \<Rightarrow>
          (if i < length (procs s)
           then (case procs s ! i of
                   (address, Dialing) \<Rightarrow>
                     Some (s\<lparr>procs := (procs s)[i := (address, Running (worker address r))]\<rparr>)
                 | _ \<Rightarrow> None)
           else None)
      | Exec i \<Rightarrow>
          (if i < length (procs s)
           then (case procs s ! i of
                   (address, Running (e # es)) \<Rightarrow>
                     perform (s\<lparr>procs := (procs s)[i := (address, Running es)]\<rparr>) e
                 | _ \<Rightarrow> None)
           else None))"

fun run :: "nat \<Rightarrow> state \<Rightarrow> action list \<Rightarrow> state option" where
  "run W s [] = Some s"
| "run W s (act # acts) = (case step W s act of None \<Rightarrow> None | Some s' \<Rightarrow> run W s' acts)"

text \<open>
  \<^verbatim>\<open>main\<close> with \<^verbatim>\<open>os.Args = args\<close> and \<^verbatim>\<open>workers = W\<close>, followed along a schedule:
  the process ends in \<^verbatim>\<open>log.Fatal\<close>, or reaches a state. \<open>None\<close> stands for a
  \<^verbatim>\<open>getAddresses\<close> that does not return and for a schedule with a step that cannot
  be taken.
\<close>

definition main :: "nat \<Rightarrow> string list \<Rightarrow> action list \<Rightarrow> state exit option" where
  "main W args schedule =
     (case getAddresses args of
        None \<Rightarrow> None
      | Some (Fatal message) \<Rightarrow> Some (Fatal message)
      | Some (Returns addresses) \<Rightarrow> map_option Returns (run W (init addresses) schedule))"

text \<open>The connection attempts in flight, and the slots the goroutines hold: one
  from the start of a goroutine until its deferred receive.\<close>

definition in_flight :: "state \<Rightarrow> nat" where
  "in_flight s = length (filter (\<lambda>p. snd p = Dialing) (procs s))"

fun slots :: "goroutine \<Rightarrow> nat" where
  "slots Dialing = 1"
| "slots (Running es) = count_list es Release"

definition held :: "state \<Rightarrow> nat" where
  "held s = sum_list (map (\<lambda>p. slots (snd p)) (procs s))
            + (case main_pc s of Spawning address \<Rightarrow> 1 | _ \<Rightarrow> 0)"

text \<open>The output events of a goroutine, and the property of claim C3: no output
  event comes before the release of the slot.\<close>

fun is_output :: "event \<Rightarrow> bool" where
  "is_output (Stdout line) = True"
| "is_output (Stderr line) = True"
| "is_output e = False"

definition release_before_output :: "event list \<Rightarrow> bool" where
  "release_before_output es = list_all (\<lambda>e. \<not> is_output e) (takeWhile (\<lambda>e. e \<noteq> Release) es)"

fun is_stdout :: "event \<Rightarrow> bool" where
  "is_stdout (Stdout line) = True"
| "is_stdout e = False"

fun is_stderr :: "event \<Rightarrow> bool" where
  "is_stderr (Stderr line) = True"
| "is_stderr e = False"

text \<open>The invariant of the channel used as a counting semaphore: the values
  buffered in it are the slots held, and never more than its capacity.\<close>

definition inv :: "nat \<Rightarrow> state \<Rightarrow> bool" where
  "inv W s = (chan s = held s \<and> chan s \<le> W)"


section \<open>Properties of the expander\<close>

declare upt_rec_numeral [simp del] upto_rec_numeral [simp del]


subsection \<open>Splitting and joining\<close>

lemma Split_not_Nil: "Split s sep \<noteq> []"
  by (induction s) (auto split: list.splits)

lemma Split_no_sep: "sep \<notin> set s \<Longrightarrow> Split s sep = [s]"
  by (induction s) auto

lemma Split_append_sep: "sep \<notin> set a \<Longrightarrow> Split (a @ sep # b) sep = a # Split b sep"
  by (induction a) auto

lemma length_Split: "length (Split s sep) = Suc (count_list s sep)"
  by (induction s) (auto split: list.splits simp: Split_not_Nil)

lemma Split_Join: "ts \<noteq> [] \<Longrightarrow> list_all (\<lambda>t. sep \<notin> set t) ts \<Longrightarrow> Split (Join ts sep) sep = ts"
  by (induction ts sep rule: Join.induct) (auto simp: Split_no_sep Split_append_sep)

lemma digits_value_append:
  "digits_value (xs @ ys) n = (case digits_value xs n of None \<Rightarrow> None | Some m \<Rightarrow> digits_value ys m)"
  by (induction xs arbitrary: n) auto

lemma of_char_digit_char: "d < 10 \<Longrightarrow> (of_char (digit_char d) :: nat) = 48 + d"
proof -
  assume "d < 10"
  then have "d \<in> {0, 1, 2, 3, 4, 5, 6, 7, 8, 9}" by auto
  then show ?thesis by (auto simp: digit_char_def)
qed

lemma is_digit_digit_char: "d < 10 \<Longrightarrow> is_digit (digit_char d)"
  by (simp add: is_digit_def of_char_digit_char)

lemma digits_value_digits: "digits_value (digits n) 0 = Some n"
proof (induction n rule: digits.induct)
  case (1 n)
  show ?case
  proof (cases "n < 10")
    case True
    then show ?thesis
      by (subst digits.simps) (simp add: is_digit_digit_char of_char_digit_char)
  next
    case False
    with 1 have "digits_value (digits (n div 10)) 0 = Some (n div 10)" by simp
    with False show ?thesis
      by (subst digits.simps) (simp add: digits_value_append is_digit_digit_char of_char_digit_char)
  qed
qed

lemma digits_all_digit: "list_all is_digit (digits n)"
proof (induction n rule: digits.induct)
  case (1 n)
  then show ?case
    by (subst digits.simps) (auto simp: is_digit_digit_char)
qed

lemma digits_not_Nil: "digits n \<noteq> []"
  by (subst digits.simps) simp

lemma is_digit_chars: "\<not> is_digit (CHR ''-'')" "\<not> is_digit (CHR ''+'')" "\<not> is_digit (CHR '','')"
  by (simp_all add: is_digit_def)

lemma Atoi_FormatInt: "0 \<le> i \<Longrightarrow> i < 2 ^ 63 \<Longrightarrow> Atoi (FormatInt i) = Some i"
proof -
  assume i: "0 \<le> i" "i < 2 ^ 63"
  obtain c cs where d: "digits (nat i) = c # cs"
    using digits_not_Nil by (cases "digits (nat i)") auto
  have "is_digit c" using digits_all_digit [of "nat i"] d by simp
  then have c: "c \<noteq> CHR ''-''" "c \<noteq> CHR ''+''" using is_digit_chars by auto
  have "digits_value (c # cs) 0 = Some (nat i)" using digits_value_digits [of "nat i"] d by simp
  with i c d show ?thesis
    by (simp add: Atoi_def FormatInt_def del: digits_value.simps)
qed

subsection \<open>The range loop and the integer parser\<close>

lemma int64_id: "- (2 ^ 63) \<le> x \<Longrightarrow> x < 2 ^ 63 \<Longrightarrow> int64 x = x"
  by (simp add: int64_def)

lemma ports_loop_upto:
  "- (2 ^ 63) \<le> i \<Longrightarrow> e < 2 ^ 63 - 1 \<Longrightarrow>
   ports_loop i e toReturn = Some (toReturn @ map FormatInt [i..e])"
proof (induction "nat (e + 1 - i)" arbitrary: i toReturn)
  case 0
  then have "\<not> i \<le> e" by simp
  then show ?case by (subst ports_loop.simps) simp
next
  case (Suc k)
  then have le: "i \<le> e" by simp
  with Suc.prems have "int64 (i + 1) = i + 1" by (intro int64_id) auto
  moreover have "ports_loop (i + 1) e (toReturn @ [FormatInt i])
      = Some ((toReturn @ [FormatInt i]) @ map FormatInt [i + 1..e])"
    using Suc.hyps(2) Suc.prems le by (intro Suc.hyps(1)) auto
  ultimately show ?case
    using le by (subst ports_loop.simps) (simp add: upto_rec1 [of i e])
qed

lemma ports_loop_returns_bound:
  assumes "ports_loop i e toReturn = Some y"
  shows "i < 2 ^ 63 \<longrightarrow> e \<noteq> 2 ^ 63 - 1"
proof (rule ports_loop.raw_induct
    [where P = "\<lambda>i e acc y. i < 2 ^ 63 \<longrightarrow> e \<noteq> 2 ^ 63 - 1", OF _ assms])
  fix loop :: "int \<Rightarrow> int \<Rightarrow> string list \<Rightarrow> string list option"
  fix i e :: int and acc y :: "string list"
  assume IH: "\<And>i e acc y. loop i e acc = Some y \<Longrightarrow> i < 2 ^ 63 \<longrightarrow> e \<noteq> 2 ^ 63 - 1"
    and eq: "(if i \<le> e then loop (int64 (i + 1)) e (acc @ [FormatInt i]) else Some acc) = Some y"
  show "i < 2 ^ 63 \<longrightarrow> e \<noteq> 2 ^ 63 - 1"
  proof (intro impI notI)
    assume i: "i < 2 ^ 63" and e: "e = 2 ^ 63 - 1"
    then have "loop (int64 (i + 1)) e (acc @ [FormatInt i]) = Some y"
      using eq by (simp split: if_splits)
    then have "int64 (i + 1) < 2 ^ 63 \<longrightarrow> e \<noteq> 2 ^ 63 - 1" by (rule IH)
    moreover have "int64 (i + 1) < 2 ^ 63" by (simp add: int64_def)
    ultimately show False using e by simp
  qed
qed

lemma ports_loop_max_diverges: "i < 2 ^ 63 \<Longrightarrow> ports_loop i (2 ^ 63 - 1) toReturn = None"
  using ports_loop_returns_bound [of i "2 ^ 63 - 1" toReturn]
  by (cases "ports_loop i (2 ^ 63 - 1) toReturn") auto

lemma digits_value_Some_digits: "digits_value ds n = Some m \<Longrightarrow> list_all is_digit ds"
  by (induction ds arbitrary: n) (auto split: if_splits)

lemma Atoi_Some_chars:
  assumes "Atoi s = Some v"
  shows "CHR '','' \<notin> set s" and "0 < v \<Longrightarrow> CHR ''-'' \<notin> set s" and "s \<noteq> []"
proof -
  from assms obtain c cs where s: "s = c # cs"
    by (cases s) (auto simp: Atoi_def)
  let ?ds = "if c = CHR ''-'' \<or> c = CHR ''+'' then cs else s"
  from assms s obtain n where n: "digits_value ?ds 0 = Some n"
    and v: "v = (if c = CHR ''-'' then - int n else int n)"
    by (auto simp: Atoi_def Let_def split: if_splits option.splits)
  have all: "list_all is_digit ?ds" using n by (rule digits_value_Some_digits)
  have nd: "\<not> is_digit x \<Longrightarrow> x \<notin> set ?ds" for x
    using all by (auto simp: list_all_iff)
  show "s \<noteq> []" using s by simp
  show "CHR '','' \<notin> set s"
    using nd [of "CHR '',''"] s is_digit_chars by (auto split: if_splits)
  show "CHR ''-'' \<notin> set s" if "0 < v"
    using nd [of "CHR ''-''"] s is_digit_chars that v by (auto split: if_splits)
qed

lemma Atoi_bounds: "Atoi s = Some v \<Longrightarrow> - (2 ^ 63) \<le> v \<and> v < 2 ^ 63"
  by (auto simp: Atoi_def Let_def split: list.splits if_splits option.splits)

lemma Atoi_no_minus_nonneg: "Atoi s = Some v \<Longrightarrow> CHR ''-'' \<notin> set s \<Longrightarrow> 0 \<le> v"
  by (auto simp: Atoi_def Let_def split: list.splits if_splits option.splits)

subsection \<open>getPorts and getAddresses\<close>

lemma Split_range:
  "CHR ''-'' \<notin> set a \<Longrightarrow> CHR ''-'' \<notin> set b \<Longrightarrow> Split (a @ CHR ''-'' # b) (CHR ''-'') = [a, b]"
  by (simp add: Split_append_sep Split_no_sep)

lemma getPorts_single:
  "CHR ''-'' \<notin> set t \<Longrightarrow>
   getPorts t = (case Atoi t of
                   None \<Rightarrow> Some NilSlice
                 | Some v \<Rightarrow> if 65535 < v \<or> v < 1 then Some NilSlice else Some (Slice [t]))"
  by (simp add: getPorts_def Let_def Split_no_sep portRangeEnd_def split: option.splits)

lemma getPorts_range:
  assumes "Atoi a = Some low" "1 \<le> low" "low \<le> 65535"
    and "CHR ''-'' \<notin> set b" "Atoi b = Some high" "high < 2 ^ 63 - 1"
  shows "getPorts (a @ ''-'' @ b) = Some (Slice (map FormatInt [low..high]))"
proof -
  have a: "CHR ''-'' \<notin> set a" using assms(1,2) Atoi_Some_chars(2) by simp
  have "int64 low = low" using assms(2,3) by (intro int64_id) auto
  moreover have "int64 high = high" using Atoi_bounds [OF assms(5)] by (intro int64_id) auto
  moreover have "ports_loop low high [] = Some ([] @ map FormatInt [low..high])"
    using assms(2,6) by (intro ports_loop_upto) auto
  ultimately show ?thesis
    using assms(1,2,3,5)
    by (simp add: getPorts_def Let_def Split_range [OF a assms(4)] portRangeEnd_def)
qed

lemma getPorts_bad_first:
  "list_ex (\<lambda>bound. Atoi bound = None) (Split t (CHR ''-'')) \<Longrightarrow> length (Split t (CHR ''-'')) = 2 \<Longrightarrow>
   getPorts t = Some NilSlice"
proof -
  assume ex: "list_ex (\<lambda>bound. Atoi bound = None) (Split t (CHR ''-''))"
    and len: "length (Split t (CHR ''-'')) = 2"
  then obtain a b where s: "Split t (CHR ''-'') = [a, b]"
    by (cases "Split t (CHR ''-'')"; cases "tl (Split t (CHR ''-''))") auto
  with ex have "Atoi a = None \<or> Atoi b = None" by simp
  then show ?thesis
    by (auto simp: getPorts_def Let_def s split: option.splits)
qed

lemma getPorts_many_separators:
  "2 \<le> count_list t (CHR ''-'') \<Longrightarrow> getPorts t = Some NilSlice"
  by (simp add: getPorts_def length_Split Let_def split: option.splits)

lemma join_ports_map: "join_ports host r toReturn = toReturn @ map (JoinHostPort host) r"
  by (induction r arbitrary: toReturn) auto

lemma tokens_loop_append:
  "tokens_loop host (xs @ ys) addresses =
     (case tokens_loop host xs addresses of None \<Rightarrow> None | Some acc \<Rightarrow> tokens_loop host ys acc)"
  by (induction xs arbitrary: addresses) (auto split: option.splits slice.splits)

lemma tokens_loop_concat:
  "list_all (\<lambda>t. getPorts t \<noteq> None) ts \<Longrightarrow>
   tokens_loop host ts addresses = Some (addresses @ concat (map (token_addresses host) ts))"
  by (induction ts arbitrary: addresses) (auto simp: token_addresses_def split: slice.splits)

lemma tokens_loop_skip:
  "getPorts t = Some NilSlice \<or> getPorts t = Some (Slice []) \<Longrightarrow>
   tokens_loop host (xs @ t # ys) addresses = tokens_loop host (xs @ ys) addresses"
  by (auto simp: tokens_loop_append split: option.splits)

lemma getAddresses_ports:
  "getAddresses (prog # host # ports # rest) =
     map_option Returns (tokens_loop host (Split ports (CHR '','')) [])"
  by (simp add: getAddresses_def)

lemma all_ports_loop_map:
  "all_ports_loop host is addresses =
     addresses @ map (\<lambda>i. JoinHostPort host (FormatInt (int64 (int i)))) (filter (\<lambda>i. i \<noteq> 0) is)"
  by (induction "is" arbitrary: addresses) auto

lemma filter_nonzero_upt: "0 < n \<Longrightarrow> filter (\<lambda>i. i \<noteq> 0) [0 ..< n] = [1 ..< n]"
proof -
  assume "0 < n"
  then have "[0 ..< n] = 0 # [1 ..< n]" by (simp add: upt_conv_Cons)
  moreover have "filter (\<lambda>i. i \<noteq> 0) [1 ..< n] = [1 ..< n]" by (rule filter_True) auto
  ultimately show ?thesis by simp
qed

lemma getAddresses_no_ports:
  "getAddresses [prog, host] =
     Some (Returns (map (\<lambda>i. JoinHostPort host (FormatInt (int i))) [1 ..< 65535]))"
proof -
  have "all_ports_loop host [0 ..< 65535] []
      = [] @ map (\<lambda>i. JoinHostPort host (FormatInt (int64 (int i)))) (filter (\<lambda>i. i \<noteq> 0) [0 ..< 65535])"
    by (rule all_ports_loop_map)
  also have "filter (\<lambda>i. i \<noteq> 0) [0 ..< 65535] = [1 ..< 65535]"
    by (rule filter_nonzero_upt) simp
  also have "map (\<lambda>i. JoinHostPort host (FormatInt (int64 (int i)))) [1 ..< 65535]
      = map (\<lambda>i. JoinHostPort host (FormatInt (int i))) [1 ..< 65535]"
    by (rule map_cong [OF refl]) (simp add: int64_id)
  finally have "all_ports_loop host [0 ..< 65535] []
      = map (\<lambda>i. JoinHostPort host (FormatInt (int i))) [1 ..< 65535]"
    by simp
  then show ?thesis
    by (simp add: getAddresses_def portRangeEnd_def)
qed

lemma JoinHostPort_inj: "JoinHostPort host p = JoinHostPort host q \<Longrightarrow> p = q"
  by (simp add: JoinHostPort_def split: if_splits)

lemma FormatInt_inj:
  "0 \<le> i \<Longrightarrow> i < 2 ^ 63 \<Longrightarrow> 0 \<le> j \<Longrightarrow> j < 2 ^ 63 \<Longrightarrow> FormatInt i = FormatInt j \<Longrightarrow> i = j"
proof -
  assume i: "0 \<le> i" "i < 2 ^ 63" and j: "0 \<le> j" "j < 2 ^ 63" and eq: "FormatInt i = FormatInt j"
  have "Some i = Atoi (FormatInt i)" using i by (simp only: Atoi_FormatInt)
  also have "\<dots> = Atoi (FormatInt j)" by (simp only: eq)
  also have "\<dots> = Some j" using j by (simp only: Atoi_FormatInt)
  finally show "i = j" by simp
qed

lemma distinct_addresses:
  assumes "0 \<le> low" "high < 2 ^ 63"
  shows "distinct (map (\<lambda>p. JoinHostPort host (FormatInt p)) [low..high])"
proof -
  have "inj_on (\<lambda>p. JoinHostPort host (FormatInt p)) (set [low..high])"
  proof (rule inj_onI)
    fix x y
    assume "x \<in> set [low..high]" "y \<in> set [low..high]"
      and "JoinHostPort host (FormatInt x) = JoinHostPort host (FormatInt y)"
    then show "x = y"
      using assms by (intro FormatInt_inj) (auto dest: JoinHostPort_inj)
  qed
  then show ?thesis by (simp add: distinct_map)
qed

lemma Atoi_FormatInt_upto:
  "0 \<le> low \<Longrightarrow> high < 2 ^ 63 \<Longrightarrow> map Atoi (map FormatInt [low..high]) = map Some [low..high]"
  by (simp add: Atoi_FormatInt)

lemma getAddresses_single_token:
  "CHR '','' \<notin> set t \<Longrightarrow>
   getAddresses [prog, host, t] = map_option Returns (tokens_loop host [t] [])"
  by (simp add: getAddresses_ports Split_no_sep)

lemma getAddresses_tokens:
  "list_all (\<lambda>t. CHR '','' \<notin> set t) (t # ts) \<Longrightarrow>
   getAddresses [prog, host, Join (t # ts) (CHR '','')] = map_option Returns (tokens_loop host (t # ts) [])"
  by (simp only: getAddresses_ports Split_Join [of "t # ts", OF list.distinct(2)])

lemmas eval_simps = Atoi_def is_digit_def FormatInt_def digits.simps digit_char_def JoinHostPort_def

lemma FormatInt_65535: "FormatInt 65535 = ''65535''"
  by (simp add: eval_simps)

text \<open>
  Claim C1 asks for 65535 addresses, ports 1 to 65535, when no port argument is given.
  The loop \<^verbatim>\<open>for i := range portRangeEnd\<close> ends at 65534: the call returns the
  65534 addresses of the ports 1 to 65534, and the address of port 65535 is not among
  them.
\<close>

theorem getAddresses_all_ports_stops_at_65534:
  "getAddresses [prog, host] =
     Some (Returns (map (\<lambda>i. JoinHostPort host (FormatInt (int i))) [1 ..< 65535]))
   \<and> length (map (\<lambda>i. JoinHostPort host (FormatInt (int i))) [1 ..< 65535]) = 65534
   \<and> JoinHostPort host ''65535'' \<notin> set (map (\<lambda>i. JoinHostPort host (FormatInt (int i))) [1 ..< 65535])"
proof (intro conjI)
  show "getAddresses [prog, host] =
     Some (Returns (map (\<lambda>i. JoinHostPort host (FormatInt (int i))) [1 ..< 65535]))"
    by (rule getAddresses_no_ports)
  show "length (map (\<lambda>i. JoinHostPort host (FormatInt (int i))) [1 ..< 65535]) = 65534"
    by simp
  show "JoinHostPort host ''65535'' \<notin> set (map (\<lambda>i. JoinHostPort host (FormatInt (int i))) [1 ..< 65535])"
  proof
    assume "JoinHostPort host ''65535'' \<in> set (map (\<lambda>i. JoinHostPort host (FormatInt (int i))) [1 ..< 65535])"
    then obtain i where i: "i < 65535"
      and eq: "JoinHostPort host ''65535'' = JoinHostPort host (FormatInt (int i))"
      by auto
    from eq have "FormatInt 65535 = FormatInt (int i)"
      by (simp only: FormatInt_65535) (rule JoinHostPort_inj)
    then have "65535 = int i" using i by (intro FormatInt_inj) auto
    with i show False by simp
  qed
qed

text \<open>
  Claim C2 asks that a range token with a bound outside \<open>[1, 65535]\<close> yields no port.
  After parsing the high bound the code tests \<^verbatim>\<open>start\<close> a second time and never
  looks at \<^verbatim>\<open>end\<close>: the token \<^verbatim>\<open>80-70000\<close> yields the 69921 ports from 80 to 70000.
\<close>

theorem getPorts_high_bound_unchecked:
  "getPorts ''80-70000'' = Some (Slice (map FormatInt [80..70000]))
   \<and> length (map FormatInt [80..70000]) = 69921
   \<and> getAddresses [prog, host, ''80-70000'']
       = Some (Returns (map (JoinHostPort host) (map FormatInt [80..70000])))"
proof -
  have a: "Atoi ''80'' = Some 80" by (simp add: eval_simps)
  have b: "Atoi ''70000'' = Some 70000" by (simp add: eval_simps)
  have "getPorts (''80'' @ ''-'' @ ''70000'') = Some (Slice (map FormatInt [80..70000]))"
    by (rule getPorts_range [OF a _ _ _ b]) simp_all
  then have g: "getPorts ''80-70000'' = Some (Slice (map FormatInt [80..70000]))" by simp
  have "getAddresses [prog, host, ''80-70000''] = map_option Returns (tokens_loop host [''80-70000''] [])"
    by (rule getAddresses_single_token) simp
  with g show ?thesis by (simp add: join_ports_map)
qed


theorem getAddresses_all_ports_stops_at_65534_witness:
  "getAddresses [''portcheck'', ''localhost''] =
     Some (Returns (map (\<lambda>i. ''localhost:'' @ FormatInt (int i)) [1 ..< 65535]))
   \<and> ''localhost:65535'' \<notin> set (map (\<lambda>i. ''localhost:'' @ FormatInt (int i)) [1 ..< 65535])"
  using getAddresses_all_ports_stops_at_65534 [of "''portcheck''" "''localhost''"]
  by (simp add: JoinHostPort_def)

theorem getPorts_high_bound_unchecked_witness:
  "getAddresses [''portcheck'', ''localhost'', ''80-70000'']
       = Some (Returns (map (\<lambda>p. ''localhost:'' @ p) (map FormatInt [80..70000])))
   \<and> length (map (\<lambda>p. ''localhost:'' @ p) (map FormatInt [80..70000])) = 69921"
  using getPorts_high_bound_unchecked [of "''portcheck''" "''localhost''"]
  by (simp add: JoinHostPort_def)

text \<open>
  Claim C5: a range token whose bounds both parse and lie in \<open>[1, 65535]\<close>, with the low
  bound above the high bound, yields no address. \<^verbatim>\<open>getPorts\<close> returns the empty
  slice, \<^verbatim>\<open>getAddresses\<close> returns normally with no address, and among sibling tokens
  the token contributes nothing.
\<close>

theorem reversed_range_yields_nothing:
  assumes "Atoi a = Some low" and "Atoi b = Some high"
    and "1 \<le> high" and "high < low" and "low \<le> 65535"
  shows "getPorts (a @ ''-'' @ b) = Some (Slice [])
       \<and> getAddresses [prog, host, a @ ''-'' @ b] = Some (Returns [])
       \<and> tokens_loop host (xs @ (a @ ''-'' @ b) # ys) addresses = tokens_loop host (xs @ ys) addresses"
proof -
  have b: "CHR ''-'' \<notin> set b" using assms(2,3) Atoi_Some_chars(2) by simp
  have g: "getPorts (a @ ''-'' @ b) = Some (Slice (map FormatInt [low..high]))"
    using assms b by (intro getPorts_range) auto
  then have g: "getPorts (a @ ''-'' @ b) = Some (Slice [])" using assms(4) by simp
  have "CHR '','' \<notin> set (a @ ''-'' @ b)"
    using Atoi_Some_chars(1) [OF assms(1)] Atoi_Some_chars(1) [OF assms(2)] by simp
  then have "getAddresses [prog, host, a @ ''-'' @ b]
      = map_option Returns (tokens_loop host [a @ ''-'' @ b] [])"
    by (rule getAddresses_single_token)
  then have "getAddresses [prog, host, a @ ''-'' @ b] = Some (Returns [])"
    using g by simp
  moreover have "tokens_loop host (xs @ (a @ ''-'' @ b) # ys) addresses
      = tokens_loop host (xs @ ys) addresses"
    using g by (intro tokens_loop_skip) simp
  ultimately show ?thesis using g by simp
qed

theorem reversed_range_yields_nothing_witness:
  "Atoi ''10'' = Some 10 \<and> Atoi ''5'' = Some 5
   \<and> getPorts ''10-5'' = Some (Slice [])
   \<and> getAddresses [''portcheck'', ''localhost'', ''10-5''] = Some (Returns [])
   \<and> tokens_loop ''localhost'' [''80'', ''10-5'', ''443''] [] = tokens_loop ''localhost'' [''80'', ''443''] []"
proof -
  have a: "Atoi ''10'' = Some 10" by (simp add: eval_simps)
  have b: "Atoi ''5'' = Some 5" by (simp add: eval_simps)
  show ?thesis
    using a b reversed_range_yields_nothing [OF a b, of "''portcheck''" "''localhost''" "[''80'']" "[''443'']" "[]"]
    by simp
qed

text \<open>
  Claim C6: a range token \<open>low-high\<close> with \<open>1 \<le> low \<le> high \<le> 65535\<close> yields exactly
  \<open>high - low + 1\<close> addresses, pairwise different; their ports are the canonical texts
  of \<open>low, low + 1, \<dots>, high\<close> in this order, so each port parses back to a number of
  \<open>[low, high]\<close> and the numbers ascend. Among sibling tokens that return, the addresses
  of the range stand between those of the tokens to its left and those of the tokens
  to its right: tokens are processed from left to right.
\<close>

theorem range_token_expansion:
  assumes "Atoi a = Some low" and "Atoi b = Some high"
    and "1 \<le> low" and "low \<le> high" and "high \<le> 65535"
  shows "getPorts (a @ ''-'' @ b) = Some (Slice (map FormatInt [low..high]))
       \<and> getAddresses [prog, host, a @ ''-'' @ b]
           = Some (Returns (map (\<lambda>p. JoinHostPort host (FormatInt p)) [low..high]))
       \<and> length (map (\<lambda>p. JoinHostPort host (FormatInt p)) [low..high]) = nat (high - low + 1)
       \<and> distinct (map (\<lambda>p. JoinHostPort host (FormatInt p)) [low..high])
       \<and> map Atoi (map FormatInt [low..high]) = map Some [low..high]
       \<and> (list_all (\<lambda>t. CHR '','' \<notin> set t \<and> getPorts t \<noteq> None) (xs @ ys) \<longrightarrow>
            getAddresses [prog, host, Join (xs @ (a @ ''-'' @ b) # ys) (CHR '','')]
            = Some (Returns (concat (map (token_addresses host) xs)
                             @ map (\<lambda>p. JoinHostPort host (FormatInt p)) [low..high]
                             @ concat (map (token_addresses host) ys))))"
proof -
  let ?t = "a @ ''-'' @ b"
  let ?addrs = "map (\<lambda>p. JoinHostPort host (FormatInt p)) [low..high]"
  have b: "CHR ''-'' \<notin> set b" using assms Atoi_Some_chars(2) [OF assms(2)] by simp
  have g: "getPorts ?t = Some (Slice (map FormatInt [low..high]))"
    using assms b by (intro getPorts_range) auto
  have comma: "CHR '','' \<notin> set ?t"
    using Atoi_Some_chars(1) [OF assms(1)] Atoi_Some_chars(1) [OF assms(2)] by simp
  have ta: "token_addresses host ?t = ?addrs"
    using g by (simp add: token_addresses_def join_ports_map)
  have "getAddresses [prog, host, ?t] = map_option Returns (tokens_loop host [?t] [])"
    using comma by (rule getAddresses_single_token)
  then have single: "getAddresses [prog, host, ?t] = Some (Returns ?addrs)"
    using g by (simp add: join_ports_map)
  have len: "length ?addrs = nat (high - low + 1)" by simp
  have dist: "distinct ?addrs" using assms by (intro distinct_addresses) auto
  have rt: "map Atoi (map FormatInt [low..high]) = map Some [low..high]"
    using assms by (intro Atoi_FormatInt_upto) auto
  have sib: "getAddresses [prog, host, Join (xs @ ?t # ys) (CHR '','')]
      = Some (Returns (concat (map (token_addresses host) xs) @ ?addrs
                       @ concat (map (token_addresses host) ys)))"
    if sibs: "list_all (\<lambda>t. CHR '','' \<notin> set t \<and> getPorts t \<noteq> None) (xs @ ys)"
  proof -
    obtain t ts where ts: "xs @ ?t # ys = t # ts" by (cases xs) auto
    have "list_all (\<lambda>t. CHR '','' \<notin> set t) (xs @ ?t # ys)"
      using sibs comma by (auto simp: list_all_iff)
    then have "getAddresses [prog, host, Join (xs @ ?t # ys) (CHR '','')]
        = map_option Returns (tokens_loop host (xs @ ?t # ys) [])"
      unfolding ts by (rule getAddresses_tokens)
    moreover have "list_all (\<lambda>t. getPorts t \<noteq> None) (xs @ ?t # ys)"
      using sibs g by (auto simp: list_all_iff)
    then have "tokens_loop host (xs @ ?t # ys) []
        = Some ([] @ concat (map (token_addresses host) (xs @ ?t # ys)))"
      by (rule tokens_loop_concat)
    ultimately show ?thesis using ta by simp
  qed
  show ?thesis
    using g single len dist rt sib by blast
qed


lemmas getPorts_eval = getPorts_def Let_def portRangeEnd_def token_addresses_def

theorem range_token_expansion_witness:
  "Atoi ''8000'' = Some 8000 \<and> Atoi ''8002'' = Some 8002
   \<and> getPorts ''8000-8002'' = Some (Slice [''8000'', ''8001'', ''8002''])
   \<and> getAddresses [''portcheck'', ''127.0.0.1'', ''80,443,8000-8002'']
       = Some (Returns [''127.0.0.1:80'', ''127.0.0.1:443'', ''127.0.0.1:8000'',
                        ''127.0.0.1:8001'', ''127.0.0.1:8002''])"
proof -
  have a: "Atoi ''8000'' = Some 8000" by (simp add: eval_simps)
  have b: "Atoi ''8002'' = Some 8002" by (simp add: eval_simps)
  have r: "map FormatInt [8000..8002] = [''8000'', ''8001'', ''8002'']"
    by (simp add: eval_simps upto_rec_numeral)
  have p80: "getPorts ''80'' = Some (Slice [''80''])" by (simp add: getPorts_eval eval_simps)
  have p443: "getPorts ''443'' = Some (Slice [''443''])" by (simp add: getPorts_eval eval_simps)
  have sibs: "list_all (\<lambda>t. CHR '','' \<notin> set t \<and> getPorts t \<noteq> None) ([''80'', ''443''] @ [])"
    by (simp add: p80 p443)
  have t80: "token_addresses ''127.0.0.1'' ''80'' = [''127.0.0.1:80'']"
    by (simp add: token_addresses_def p80 JoinHostPort_def)
  have t443: "token_addresses ''127.0.0.1'' ''443'' = [''127.0.0.1:443'']"
    by (simp add: token_addresses_def p443 JoinHostPort_def)
  have r2: "map (\<lambda>p. JoinHostPort ''127.0.0.1'' (FormatInt p)) [8000..8002]
      = [''127.0.0.1:8000'', ''127.0.0.1:8001'', ''127.0.0.1:8002'']"
    by (simp add: eval_simps upto_rec_numeral)
  show ?thesis
    using a b sibs range_token_expansion [OF a b, of "''portcheck''" "''127.0.0.1''" "[''80'', ''443'']" "[]"]
    by (simp add: r r2 t80 t443)
qed


lemma malformed_getPorts: "malformed t \<Longrightarrow> getPorts t = Some NilSlice"
proof -
  assume "malformed t"
  then consider (single) "CHR ''-'' \<notin> set t" "case Atoi t of None \<Rightarrow> True | Some v \<Rightarrow> v < 1 \<or> 65535 < v"
    | (range) "length (Split t (CHR ''-'')) = 2" "list_ex (\<lambda>bound. Atoi bound = None) (Split t (CHR ''-''))"
    | (many) "2 \<le> count_list t (CHR ''-'')"
    by (auto simp: malformed_def length_Split count_list_0_iff Atoi_def)
  then show ?thesis
  proof cases
    case single
    then show ?thesis by (auto simp: getPorts_single split: option.splits)
  next
    case range
    then show ?thesis by (intro getPorts_bad_first)
  next
    case many
    then show ?thesis by (rule getPorts_many_separators)
  qed
qed

text \<open>
  Claim C7: a malformed token (the empty string, a single port that is not a number
  or lies outside \<open>[1, 65535]\<close> such as 0 or 65536, a range with a bound that is not a
  number, a token with more than one separator) yields no port. The call returns
  normally, and the result is the one of the port argument without this token: the
  sibling tokens are processed and their addresses are returned.
\<close>

theorem malformed_token_is_skipped:
  assumes "malformed t"
  shows "getPorts t = Some NilSlice
       \<and> tokens_loop host (xs @ t # ys) addresses = tokens_loop host (xs @ ys) addresses
       \<and> (list_all (\<lambda>s. CHR '','' \<notin> set s) (xs @ t # ys) \<longrightarrow>
            getAddresses [prog, host, Join (xs @ t # ys) (CHR '','')]
            = map_option Returns (tokens_loop host (xs @ ys) []))
       \<and> (list_all (\<lambda>s. CHR '','' \<notin> set s) (xs @ t # ys)
            \<and> list_all (\<lambda>s. getPorts s \<noteq> None) (xs @ ys) \<longrightarrow>
            getAddresses [prog, host, Join (xs @ t # ys) (CHR '','')]
            = Some (Returns (concat (map (token_addresses host) (xs @ ys)))))"
proof -
  have g: "getPorts t = Some NilSlice" using assms by (rule malformed_getPorts)
  have skip: "tokens_loop host (xs @ t # ys) acc = tokens_loop host (xs @ ys) acc" for acc
    using g by (intro tokens_loop_skip) simp
  have all: "getAddresses [prog, host, Join (xs @ t # ys) (CHR '','')]
      = map_option Returns (tokens_loop host (xs @ ys) [])"
    if "list_all (\<lambda>s. CHR '','' \<notin> set s) (xs @ t # ys)"
  proof -
    obtain u us where us: "xs @ t # ys = u # us" by (cases xs) auto
    have "getAddresses [prog, host, Join (xs @ t # ys) (CHR '','')]
        = map_option Returns (tokens_loop host (xs @ t # ys) [])"
      using that unfolding us by (rule getAddresses_tokens)
    then show ?thesis by (simp only: skip)
  qed
  have ret: "getAddresses [prog, host, Join (xs @ t # ys) (CHR '','')]
      = Some (Returns (concat (map (token_addresses host) (xs @ ys))))"
    if "list_all (\<lambda>s. CHR '','' \<notin> set s) (xs @ t # ys)"
      and "list_all (\<lambda>s. getPorts s \<noteq> None) (xs @ ys)"
    using all [OF that(1)] tokens_loop_concat [OF that(2), of host "[]"] by simp
  show ?thesis using g skip all ret by blast
qed

theorem malformed_token_is_skipped_witness:
  "malformed [] \<and> malformed ''abc'' \<and> malformed ''0'' \<and> malformed ''65536''
   \<and> malformed ''1-2-3'' \<and> malformed ''80-x''
   \<and> getPorts [] = Some NilSlice \<and> getPorts ''abc'' = Some NilSlice
   \<and> getPorts ''0'' = Some NilSlice \<and> getPorts ''65536'' = Some NilSlice
   \<and> getPorts ''1-2-3'' = Some NilSlice \<and> getPorts ''80-x'' = Some NilSlice
   \<and> getAddresses [''portcheck'', ''localhost'', ''80,1-2-3,443'']
       = Some (Returns [''localhost:80'', ''localhost:443''])"
proof -
  have m: "malformed []" "malformed ''abc''" "malformed ''0''" "malformed ''65536''"
    "malformed ''1-2-3''" "malformed ''80-x''"
    by (simp_all add: malformed_def eval_simps)
  have p80: "getPorts ''80'' = Some (Slice [''80''])" by (simp add: getPorts_eval eval_simps)
  have p443: "getPorts ''443'' = Some (Slice [''443''])" by (simp add: getPorts_eval eval_simps)
  have t: "token_addresses ''localhost'' ''80'' = [''localhost:80'']"
    "token_addresses ''localhost'' ''443'' = [''localhost:443'']"
    by (simp_all add: token_addresses_def p80 p443 JoinHostPort_def)
  have g: "getPorts [] = Some NilSlice" "getPorts ''abc'' = Some NilSlice"
    "getPorts ''0'' = Some NilSlice" "getPorts ''65536'' = Some NilSlice"
    "getPorts ''1-2-3'' = Some NilSlice" "getPorts ''80-x'' = Some NilSlice"
    by (rule malformed_token_is_skipped [OF m(1), THEN conjunct1]
        malformed_token_is_skipped [OF m(2), THEN conjunct1]
        malformed_token_is_skipped [OF m(3), THEN conjunct1]
        malformed_token_is_skipped [OF m(4), THEN conjunct1]
        malformed_token_is_skipped [OF m(5), THEN conjunct1]
        malformed_token_is_skipped [OF m(6), THEN conjunct1])+
  note inst = malformed_token_is_skipped [OF m(5), where host = "''localhost''"
      and xs = "[''80'']" and ys = "[''443'']" and prog = "''portcheck''",
      THEN conjunct2, THEN conjunct2, THEN conjunct2]
  have "getAddresses [''portcheck'', ''localhost'', ''80,1-2-3,443'']
       = Some (Returns [''localhost:80'', ''localhost:443''])"
    using inst by (simp add: p80 p443 t)
  then show ?thesis using m g by simp
qed

text \<open>
  Claim C10: a single-port token that parses to a number of \<open>[1, 65535]\<close> has no
  separator and yields exactly one address, whose port is the text of the token as
  written (\<^verbatim>\<open>0080\<close> and \<^verbatim>\<open>+80\<close> are kept), while a range starting with the
  same text yields the canonical decimal texts produced by \<^verbatim>\<open>FormatInt\<close>.
\<close>

theorem single_port_token_keeps_text:
  assumes "Atoi t = Some p" and "1 \<le> p" and "p \<le> 65535"
  shows "CHR ''-'' \<notin> set t
       \<and> getPorts t = Some (Slice [t])
       \<and> getAddresses [prog, host, t] = Some (Returns [JoinHostPort host t])
       \<and> (Atoi b = Some high \<and> CHR ''-'' \<notin> set b \<and> high < 2 ^ 63 - 1 \<longrightarrow>
            getPorts (t @ ''-'' @ b) = Some (Slice (map FormatInt [p..high])))"
proof -
  have d: "CHR ''-'' \<notin> set t" using assms(1,2) Atoi_Some_chars(2) by simp
  then have g: "getPorts t = Some (Slice [t])"
    using assms by (simp add: getPorts_single)
  have "getAddresses [prog, host, t] = map_option Returns (tokens_loop host [t] [])"
    using Atoi_Some_chars(1) [OF assms(1)] by (rule getAddresses_single_token)
  then have a: "getAddresses [prog, host, t] = Some (Returns [JoinHostPort host t])"
    using g by simp
  have r: "getPorts (t @ ''-'' @ b) = Some (Slice (map FormatInt [p..high]))"
    if "Atoi b = Some high" "CHR ''-'' \<notin> set b" "high < 2 ^ 63 - 1"
    using assms that by (intro getPorts_range) auto
  show ?thesis using d g a r by blast
qed

theorem single_port_token_keeps_text_witness:
  "Atoi ''0080'' = Some 80 \<and> Atoi ''+80'' = Some 80 \<and> Atoi ''0081'' = Some 81
   \<and> getAddresses [''portcheck'', ''localhost'', ''0080''] = Some (Returns [''localhost:0080''])
   \<and> getAddresses [''portcheck'', ''localhost'', ''+80''] = Some (Returns [''localhost:+80''])
   \<and> getPorts ''0080-0081'' = Some (Slice [''80'', ''81''])
   \<and> getPorts ''+80-0081'' = Some (Slice [''80'', ''81''])"
proof -
  have a: "Atoi ''0080'' = Some 80" by (simp add: eval_simps)
  have b: "Atoi ''+80'' = Some 80" by (simp add: eval_simps)
  have c: "Atoi ''0081'' = Some 81" by (simp add: eval_simps)
  have r: "map FormatInt [80..81] = [''80'', ''81'']"
    by (simp add: eval_simps upto_rec_numeral)
  show ?thesis
    using a b c
      single_port_token_keeps_text [OF a, where b = "''0081''" and high = 81
        and prog = "''portcheck''" and host = "''localhost''"]
      single_port_token_keeps_text [OF b, where b = "''0081''" and high = 81
        and prog = "''portcheck''" and host = "''localhost''"]
    by (simp add: r JoinHostPort_def)
qed

section \<open>Properties of the prober\<close>

subsection \<open>The channel as a semaphore\<close>

lemma count_worker_Release: "count_list (worker address r) Release = 1"
  by (simp add: worker_def split: dial_result.splits option.splits)

lemma sum_slots_update:
  "i < length ps \<Longrightarrow>
   sum_list (map (\<lambda>p. slots (snd p)) (ps[i := (a, g)])) + slots (snd (ps ! i))
   = sum_list (map (\<lambda>p. slots (snd p)) ps) + slots g"
proof (induction ps arbitrary: i)
  case Nil
  then show ?case by simp
next
  case (Cons p ps)
  then show ?case by (cases i) auto
qed

lemma inv_init: "inv W (init addresses)"
  by (simp add: inv_def init_def held_def)

lemma in_flight_le_held: "in_flight s \<le> held s"
proof -
  have "length (filter (\<lambda>p. snd p = Dialing) ps) \<le> sum_list (map (\<lambda>p. slots (snd p)) ps)"
    for ps :: "(string \<times> goroutine) list"
    by (induction ps) auto
  then show ?thesis by (simp add: in_flight_def held_def trans_le_add1)
qed

lemma step_inv:
  assumes "inv W s" and "step W s act = Some s'"
  shows "inv W s'"
proof (cases act)
  case Send
  with assms show ?thesis
    by (auto simp: step_def inv_def held_def split: main_pc.splits list.splits if_splits)
next
  case Go
  with assms show ?thesis
    by (auto simp: step_def inv_def held_def split: main_pc.splits)
next
  case LoopEnd
  with assms show ?thesis
    by (auto simp: step_def inv_def held_def split: if_splits)
next
  case Wait
  with assms show ?thesis
    by (auto simp: step_def inv_def held_def split: if_splits)
next
  case (Dial i r)
  with assms obtain a where i: "i < length (procs s)" and p: "procs s ! i = (a, Dialing)"
    and s': "s' = s\<lparr>procs := (procs s)[i := (a, Running (worker a r))]\<rparr>"
    by (auto simp: step_def split: if_splits prod.splits goroutine.splits)
  have "sum_list (map (\<lambda>p. slots (snd p)) ((procs s)[i := (a, Running (worker a r))]))
      = sum_list (map (\<lambda>p. slots (snd p)) (procs s))"
    using sum_slots_update [OF i, of a "Running (worker a r)"] p
    by (simp add: count_worker_Release)
  with assms(1) show ?thesis by (simp add: s' inv_def held_def)
next
  case (Exec i)
  with assms obtain a e es where i: "i < length (procs s)"
    and p: "procs s ! i = (a, Running (e # es))"
    and s': "perform (s\<lparr>procs := (procs s)[i := (a, Running es)]\<rparr>) e = Some s'"
    by (auto simp: step_def split: if_splits prod.splits goroutine.splits list.splits)
  have sum: "sum_list (map (\<lambda>p. slots (snd p)) ((procs s)[i := (a, Running es)]))
        + count_list (e # es) Release
      = sum_list (map (\<lambda>p. slots (snd p)) (procs s)) + count_list es Release"
    using sum_slots_update [OF i, of a "Running es"] p by simp
  show ?thesis
  proof (cases "e = Release")
    case True
    with s' sum assms(1) show ?thesis
      by (auto simp: perform_def inv_def held_def split: if_splits)
  next
    case False
    with s' sum assms(1) show ?thesis
      by (cases e) (auto simp: perform_def inv_def held_def)
  qed
qed

lemma run_inv: "inv W s \<Longrightarrow> run W s acts = Some s' \<Longrightarrow> inv W s'"
proof (induction acts arbitrary: s)
  case Nil
  then show ?case by simp
next
  case (Cons act acts)
  then show ?case by (auto split: option.splits dest: step_inv)
qed

lemma main_Returns:
  "main W args schedule = Some (Returns s) \<Longrightarrow>
   \<exists>addresses. getAddresses args = Some (Returns addresses) \<and> run W (init addresses) schedule = Some s"
  by (auto simp: main_def split: option.splits exit.splits)

lemma step_Send_enabled:
  "(step W s Send \<noteq> None) = (main_pc s = Sending \<and> queue s \<noteq> [] \<and> chan s < W)"
  by (auto simp: step_def split: main_pc.splits list.splits)

lemma step_chan_decrease:
  assumes "step W s act = Some s'" and "chan s' < chan s"
  shows "\<exists>i a es. act = Exec i \<and> i < length (procs s) \<and> procs s ! i = (a, Running (Release # es))"
proof (cases act)
  case (Exec i)
  with assms obtain a e es where i: "i < length (procs s)"
    and p: "procs s ! i = (a, Running (e # es))"
    and s': "perform (s\<lparr>procs := (procs s)[i := (a, Running es)]\<rparr>) e = Some s'"
    by (auto simp: step_def split: if_splits prod.splits goroutine.splits list.splits)
  from s' assms(2) have "e = Release"
    by (cases e) (auto simp: perform_def split: if_splits)
  with Exec i p show ?thesis by simp
qed (use assms in \<open>auto simp: step_def split: main_pc.splits list.splits if_splits prod.splits goroutine.splits\<close>)

subsection \<open>Standard output only grows\<close>

lemma perform_stdout: "perform s e = Some s' \<Longrightarrow> take (length (stdout s)) (stdout s') = stdout s"
  by (cases e) (auto simp: perform_def split: if_splits)

lemma step_stdout: "step W s act = Some s' \<Longrightarrow> take (length (stdout s)) (stdout s') = stdout s"
  by (cases act)
    (auto simp: step_def split: main_pc.splits list.splits if_splits prod.splits goroutine.splits
      dest!: perform_stdout)

lemma run_stdout: "run W s acts = Some s' \<Longrightarrow> take (length (stdout s)) (stdout s') = stdout s"
proof (induction acts arbitrary: s)
  case Nil
  then show ?case by simp
next
  case (Cons act acts)
  then obtain s1 where 1: "step W s act = Some s1" and 2: "run W s1 acts = Some s'"
    by (auto split: option.splits)
  have a: "take (length (stdout s)) (stdout s1) = stdout s" using 1 by (rule step_stdout)
  have b: "take (length (stdout s1)) (stdout s') = stdout s1" using 2 by (rule Cons.IH)
  have "length (stdout s) \<le> length (stdout s1)"
    using a by (metis length_take min.cobounded1)
  then have "take (length (stdout s)) (take (length (stdout s1)) (stdout s')) = take (length (stdout s)) (stdout s')"
    by (simp add: min_def)
  with a b show ?case by simp
qed



text \<open>
  Claim C4: in every state that a run of \<^verbatim>\<open>main\<close> with capacity \<open>W\<close> reaches, for any
  arguments and any schedule, the connection attempts in flight are at most the slots
  held, which are the values buffered in the channel, at most \<open>W\<close>. The send that
  precedes the start of a goroutine can be taken exactly when the channel holds fewer
  than \<open>W\<close> values, and the only step that lowers the count is the release performed
  by a goroutine.
\<close>

theorem in_flight_bounded:
  assumes "main W args schedule = Some (Returns s)"
  shows "in_flight s \<le> W \<and> in_flight s \<le> held s \<and> held s = chan s \<and> chan s \<le> W
       \<and> (step W s Send \<noteq> None) = (main_pc s = Sending \<and> queue s \<noteq> [] \<and> chan s < W)
       \<and> (step W s act = Some s' \<and> chan s' < chan s \<longrightarrow>
            (\<exists>i a es. act = Exec i \<and> i < length (procs s)
                      \<and> procs s ! i = (a, Running (Release # es))))"
proof -
  from assms obtain addresses where "run W (init addresses) schedule = Some s"
    by (auto dest: main_Returns)
  with inv_init have "inv W s" by (rule run_inv)
  then have "held s = chan s" "chan s \<le> W" by (simp_all add: inv_def)
  moreover have "in_flight s \<le> held s" by (rule in_flight_le_held)
  ultimately show ?thesis
    using step_Send_enabled [of W s] step_chan_decrease [of W s act s'] by auto
qed

lemma getAddresses_80_81:
  "getAddresses [''portcheck'', ''localhost'', ''80,81''] = Some (Returns [''localhost:80'', ''localhost:81''])"
proof -
  have "getPorts ''80'' = Some (Slice [''80''])" "getPorts ''81'' = Some (Slice [''81''])"
    by (simp_all add: getPorts_eval eval_simps)
  then show ?thesis
    by (simp add: getAddresses_ports JoinHostPort_def)
qed

theorem in_flight_bounded_witness:
  "main 1 [''portcheck'', ''localhost'', ''80,81''] [Send, Go]
     = Some (Returns \<lparr>main_pc = Sending, queue = [''localhost:81''], chan = 1,
                      procs = [(''localhost:80'', Dialing)], stdout = [], stderr = []\<rparr>)
   \<and> in_flight \<lparr>main_pc = Sending, queue = [''localhost:81''], chan = 1,
                 procs = [(''localhost:80'', Dialing)], stdout = [], stderr = []\<rparr> \<le> 1
   \<and> step 1 \<lparr>main_pc = Sending, queue = [''localhost:81''], chan = 1,
              procs = [(''localhost:80'', Dialing)], stdout = [], stderr = []\<rparr> Send = None"
proof -
  let ?s = "\<lparr>main_pc = Sending, queue = [''localhost:81''], chan = 1,
              procs = [(''localhost:80'', Dialing)], stdout = [], stderr = []\<rparr>"
  have m: "main 1 [''portcheck'', ''localhost'', ''80,81''] [Send, Go] = Some (Returns ?s)"
    by (simp add: main_def getAddresses_80_81 init_def step_def)
  show ?thesis
    using m in_flight_bounded [OF m] by simp
qed

text \<open>
  Claim C3 says that the slot is released when the connect attempt completes, before
  any output of the attempt. On a successful attempt the success line comes before
  the release: after the line is written the channel is still full, and the send for
  the next address cannot be taken.
\<close>

theorem release_before_output_counterexample:
  "\<not> release_before_output (worker ''localhost:80'' (DialOK None))
   \<and> main 1 [''portcheck'', ''localhost'', ''80,81''] [Send, Go, Dial 0 (DialOK None), Exec 0]
       = Some (Returns \<lparr>main_pc = Sending, queue = [''localhost:81''], chan = 1,
                        procs = [(''localhost:80'', Running [CloseConn, Release])],
                        stdout = [''SUCCESS: localhost:80'' @ newline], stderr = []\<rparr>)
   \<and> step 1 \<lparr>main_pc = Sending, queue = [''localhost:81''], chan = 1,
              procs = [(''localhost:80'', Running [CloseConn, Release])],
              stdout = [''SUCCESS: localhost:80'' @ newline], stderr = []\<rparr> Send = None"
  by (simp add: release_before_output_def worker_def main_def getAddresses_80_81 init_def
      step_def perform_def)

text \<open>
  Claim C3, amended: the slot is released by the deferred receive, once, as the last
  effect of the goroutine. After a failed connect attempt the release is the only
  effect; after a successful one the success line, the close of the connection and
  the diagnostic of a failed close all come before it.
\<close>

theorem slot_released_on_return:
  "last (worker address r) = Release
   \<and> count_list (worker address r) Release = 1
   \<and> worker address DialFailed = [Release]
   \<and> release_before_output (worker address DialFailed)
   \<and> takeWhile (\<lambda>e. e \<noteq> Release) (worker address (DialOK errE))
       = [Stdout (''SUCCESS: '' @ address @ newline), CloseConn]
         @ (case errE of None \<Rightarrow> []
            | Some e \<Rightarrow> [Stderr (''error closing connection: '' @ e @ newline)])
   \<and> \<not> release_before_output (worker address (DialOK errE))"
  by (simp add: worker_def release_before_output_def split: dial_result.splits option.splits)

theorem slot_released_on_return_witness:
  "worker ''localhost:80'' DialFailed = [Release]
   \<and> last (worker ''localhost:80'' (DialOK (Some ''broken pipe''))) = Release
   \<and> takeWhile (\<lambda>e. e \<noteq> Release) (worker ''localhost:80'' (DialOK (Some ''broken pipe'')))
       = [Stdout (''SUCCESS: localhost:80'' @ newline), CloseConn,
          Stderr (''error closing connection: broken pipe'' @ newline)]"
  using slot_released_on_return [of "''localhost:80''" "DialOK (Some ''broken pipe'')" "Some ''broken pipe''"]
  by simp

lemma getAddresses_ipv6_80:
  "getAddresses [''portcheck'', ''::1'', ''80''] = Some (Returns [''[::1]:80''])"
proof -
  have "getPorts ''80'' = Some (Slice [''80''])"
    by (simp add: getPorts_eval eval_simps)
  then show ?thesis
    by (simp add: getAddresses_ports JoinHostPort_def)
qed

text \<open>
  Claim C9 gives the line of a successful attempt as \<^verbatim>\<open>SUCCESS: <host>:<port>\<close>. The
  line carries the address built by \<^verbatim>\<open>net.JoinHostPort\<close>, which puts a host with a
  colon in brackets: for the host \<^verbatim>\<open>::1\<close> and the port 80 the line written is
  \<^verbatim>\<open>SUCCESS: [::1]:80\<close>, not \<^verbatim>\<open>SUCCESS: ::1:80\<close>.
\<close>

theorem success_line_format_counterexample:
  "filter is_stdout (worker (JoinHostPort ''::1'' ''80'') (DialOK None))
     \<noteq> [Stdout (''SUCCESS: '' @ ''::1'' @ '':'' @ ''80'' @ newline)]
   \<and> main 1 [''portcheck'', ''::1'', ''80''] [Send, Go, Dial 0 (DialOK None), Exec 0]
       = Some (Returns \<lparr>main_pc = Sending, queue = [], chan = 1,
                        procs = [(''[::1]:80'', Running [CloseConn, Release])],
                        stdout = [''SUCCESS: [::1]:80'' @ newline], stderr = []\<rparr>)"
  by (simp add: worker_def JoinHostPort_def main_def getAddresses_ipv6_80 init_def
      step_def perform_def)

text \<open>
  Claim C9, amended: a failed attempt writes nothing and closes nothing. A successful
  attempt writes exactly one line \<^verbatim>\<open>SUCCESS: \<close> followed by the address that
  \<^verbatim>\<open>net.JoinHostPort\<close> built, \<open>host:port\<close> for a host without a colon and \<open>[host]:port\<close>
  for a host with one, then closes the connection once; an error of the close is
  written to standard error after that, and changes neither the success line of the
  attempt nor anything written to standard output before.
\<close>

theorem attempt_output:
  "filter is_output (worker address DialFailed) = []
   \<and> CloseConn \<notin> set (worker address DialFailed)
   \<and> filter is_stdout (worker address (DialOK errE)) = [Stdout (''SUCCESS: '' @ address @ newline)]
   \<and> takeWhile (\<lambda>e. e \<noteq> CloseConn) (worker address (DialOK errE))
       = [Stdout (''SUCCESS: '' @ address @ newline)]
   \<and> count_list (worker address (DialOK errE)) CloseConn = 1
   \<and> dropWhile (\<lambda>e. e \<noteq> CloseConn) (worker address (DialOK errE))
       = CloseConn # (case errE of None \<Rightarrow> []
                      | Some e \<Rightarrow> [Stderr (''error closing connection: '' @ e @ newline)])
         @ [Release]
   \<and> filter is_stdout (worker address (DialOK (Some e))) = filter is_stdout (worker address (DialOK None))
   \<and> (perform s (Stderr line) = Some s' \<longrightarrow> stdout s' = stdout s)
   \<and> (run W s acts = Some s' \<longrightarrow> take (length (stdout s)) (stdout s') = stdout s)
   \<and> filter is_stdout (worker (JoinHostPort host port) (DialOK errE))
       = [Stdout (''SUCCESS: ''
                  @ (if CHR '':'' \<in> set host then ''['' @ host @ '']:'' @ port
                     else host @ '':'' @ port)
                  @ newline)]"
proof -
  have "run W s acts = Some s' \<longrightarrow> take (length (stdout s)) (stdout s') = stdout s"
    using run_stdout by blast
  moreover have "perform s (Stderr line) = Some s' \<longrightarrow> stdout s' = stdout s"
    by (auto simp: perform_def)
  ultimately show ?thesis
    by (simp add: worker_def JoinHostPort_def newline_def split: option.splits)
qed

theorem attempt_output_witness:
  "run 1 (init [''localhost:80''])
        [Send, Go, Dial 0 (DialOK (Some ''broken pipe'')), Exec 0, Exec 0, Exec 0, Exec 0]
       = Some \<lparr>main_pc = Sending, queue = [], chan = 0,
               procs = [(''localhost:80'', Running [])],
               stdout = [''SUCCESS: localhost:80'' @ newline],
               stderr = [''error closing connection: broken pipe'' @ newline]\<rparr>
   \<and> take (length (stdout (init [''localhost:80''])))
        (stdout \<lparr>main_pc = Sending, queue = [], chan = 0,
                  procs = [(''localhost:80'', Running [])],
                  stdout = [''SUCCESS: localhost:80'' @ newline],
                  stderr = [''error closing connection: broken pipe'' @ newline]\<rparr>)
       = stdout (init [''localhost:80''])
   \<and> filter is_stdout (worker (JoinHostPort ''localhost'' ''80'') (DialOK (Some ''broken pipe'')))
       = [Stdout (''SUCCESS: localhost:80'' @ newline)]
   \<and> filter is_stdout (worker (JoinHostPort ''::1'' ''80'') (DialOK None))
       = [Stdout (''SUCCESS: [::1]:80'' @ newline)]
   \<and> filter is_output (worker ''localhost:80'' DialFailed) = []"
proof -
  let ?acts = "[Send, Go, Dial 0 (DialOK (Some ''broken pipe'')), Exec 0, Exec 0, Exec 0, Exec 0]"
  let ?s' = "\<lparr>main_pc = Sending, queue = [], chan = 0,
               procs = [(''localhost:80'', Running [])],
               stdout = [''SUCCESS: localhost:80'' @ newline],
               stderr = [''error closing connection: broken pipe'' @ newline]\<rparr>"
  have r: "run 1 (init [''localhost:80'']) ?acts = Some ?s'"
    by (simp add: init_def step_def perform_def worker_def)
  note inst = attempt_output [where address = "''localhost:80''" and errE = "Some ''broken pipe''"
      and host = "''localhost''" and port = "''80''" and W = 1
      and s = "init [''localhost:80'']" and acts = ?acts and s' = ?s']
  have grows: "take (length (stdout (init [''localhost:80'']))) (stdout ?s')
      = stdout (init [''localhost:80''])"
    using r inst by blast
  have line: "filter is_stdout (worker (JoinHostPort ''localhost'' ''80'') (DialOK (Some ''broken pipe'')))
      = [Stdout (''SUCCESS: localhost:80'' @ newline)]"
    using inst by simp
  have bracket: "filter is_stdout (worker (JoinHostPort ''::1'' ''80'') (DialOK None))
      = [Stdout (''SUCCESS: [::1]:80'' @ newline)]"
    using attempt_output [where address = "''localhost:80''" and errE = None
        and host = "''::1''" and port = "''80''" and W = 1 and e = "[]" and line = "[]"
        and s = "init [''localhost:80'']" and acts = ?acts and s' = ?s']
    by simp
  have quiet: "filter is_output (worker ''localhost:80'' DialFailed) = []"
    using inst by blast
  show ?thesis
    using r grows line bracket quiet by blast
qed

end
